theory Spec2Isabelle
  imports
    Main
    "HOL-Library.Word"
    "HOL-Library.Signed_Division"
    "HOL-Library.Product_Lexorder"
begin

section \<open>A shallow embedding of the MemoryManager class\<close>

text \<open>
  The development follows \<^verbatim>\<open>MemoryManager.h\<close> and \<^verbatim>\<open>MemoryManager.cpp\<close>. The machine
  types of the source are kept (LP64): \<^verbatim>\<open>size_t\<close> and \<^verbatim>\<open>uintptr_t\<close> are 64-bit words,
  \<^verbatim>\<open>unsigned\<close> and \<^verbatim>\<open>int\<close> are 32-bit words (an \<^verbatim>\<open>int\<close> is read with \<open>sint\<close>), and the
  cells of the exported free list are 16-bit words. A pointer is the address it holds, the
  null pointer is address \<open>0\<close>. Conversions are written where the source has them, also
  the implicit ones: \<open>ucast\<close> truncates or zero-extends, \<open>scast\<close> sign-extends.

  What C++ leaves undefined is a value of the type \<open>fault\<close>: a division by zero and a read
  past the end of the exported array. The one exception is the use of a deque iterator
  after \<^verbatim>\<open>erase\<close> in \<^verbatim>\<open>merge_adjacent_regions\<close>: there the model follows what the program
  does with the deque of libstdc++, the library of the \<^verbatim>\<open>g++\<close> that the Makefile names.
\<close>

type_synonym size_t = "64 word"
type_synonym uintptr_t = "64 word"
type_synonym unsigned = "32 word"
type_synonym c_int = "32 word"
type_synonym uint16_t = "16 word"

datatype fault = DivisionByZero | OutOfBoundsRead

subsection \<open>The data of the class\<close>

record Region =
  position :: size_t
  extent :: size_t
  available :: bool

text \<open>
  The strategy is a \<^verbatim>\<open>std::function<int(int, void*)>\<close>. Its second argument points to a
  \<^verbatim>\<open>uint16_t\<close> array; \<open>None\<close> is the null pointer, \<open>Some xs\<close> an array with cells \<open>xs\<close>.
\<close>

type_synonym allocator = "c_int \<Rightarrow> uint16_t list option \<Rightarrow> fault + c_int"

record MemoryManager =
  unit_size :: unsigned
  selector :: allocator
  storage_area :: uintptr_t
  total_capacity :: size_t
  memory_regions :: "Region list"
  allocation_table :: "uintptr_t \<rightharpoonup> size_t"

definition Region_ctor :: "size_t \<Rightarrow> size_t \<Rightarrow> bool \<Rightarrow> Region" where
  "Region_ctor p e a = \<lparr>position = p, extent = e, available = a\<rparr>"

definition MemoryManager_ctor :: "unsigned \<Rightarrow> allocator \<Rightarrow> MemoryManager" where
  "MemoryManager_ctor wordSize alloc =
     \<lparr>unit_size = wordSize, selector = alloc, storage_area = 0, total_capacity = 0,
      memory_regions = [], allocation_table = Map.empty\<rparr>"

subsection \<open>Private helpers\<close>

text \<open>
  \<^verbatim>\<open>merge_adjacent_regions\<close> erases \<^verbatim>\<open>next\<close> from the deque and goes on with the iterator
  \<^verbatim>\<open>current\<close>. The standard keeps \<^verbatim>\<open>current\<close> valid only when the erased element is the
  last one, so the loop is modelled on the storage of the deque, as libstdc++ lays it out:
  a run of cells, of which the cells from \<open>b\<close> (\<^verbatim>\<open>begin()\<close>) up to, not including, \<open>e\<close>
  (\<^verbatim>\<open>end()\<close>) are the elements. An iterator is the number of a cell. On entry the
  elements are the cells \<open>0, \<dots>, size - 1\<close>. A cell that is popped keeps what it held
  (a \<^verbatim>\<open>Region\<close> has no destructor), and the cells are read as one run (a node of the deque
  holds 21 regions; a longer deque is read the same way).

  \<^verbatim>\<open>erase(pos)\<close> is \<^verbatim>\<open>_M_erase\<close> of libstdc++:
  \<^verbatim>\<open>index = pos - begin(); if (size_type(index) < (size() >> 1))\<close>
  \<^verbatim>\<open>{ if (pos != begin()) move_backward(begin(), pos, pos + 1); pop_front(); }\<close>
  \<^verbatim>\<open>else { if (pos + 1 != end()) move(pos + 1, end(), pos); pop_back(); }\<close>.
  When \<open>pos\<close> is a cell before \<^verbatim>\<open>begin()\<close> the index is negative and, as a
  \<^verbatim>\<open>size_type\<close>, larger than every size: the second branch is taken.
  \<open>move_backward b pos\<close> copies the cells \<open>b, \<dots>, pos - 1\<close> one cell up, \<open>move_down pos e\<close>
  copies the cells \<open>pos + 1, \<dots>, e - 1\<close> one cell down.
\<close>

definition slice :: "nat \<Rightarrow> nat \<Rightarrow> 'a list \<Rightarrow> 'a list" where
  "slice i j xs = take (j - i) (drop i xs)"

definition move_backward :: "nat \<Rightarrow> nat \<Rightarrow> Region list \<Rightarrow> Region list" where
  "move_backward b pos cells =
     take (Suc b) cells @ slice b pos cells @ drop (Suc pos) cells"

definition move_down :: "nat \<Rightarrow> nat \<Rightarrow> Region list \<Rightarrow> Region list" where
  "move_down pos e cells =
     take pos cells @ slice (Suc pos) e cells @ drop (e - 1) cells"

definition erase_at_front :: "nat \<Rightarrow> nat \<Rightarrow> nat \<Rightarrow> bool" where
  "erase_at_front b e pos \<longleftrightarrow> b \<le> pos \<and> pos - b < (e - b) div 2"

text \<open>
  The loop \<^verbatim>\<open>while (current != memory_regions.end() - 1)\<close>. \<^verbatim>\<open>current\<close> starts at
  \<^verbatim>\<open>begin()\<close>, moves up by one cell at a time and \<^verbatim>\<open>end()\<close> moves down by one cell at a
  time, so \<^verbatim>\<open>current\<close> never passes \<^verbatim>\<open>end() - 1\<close> and the test is \<open>current + 1 < e\<close>. When
  both regions are available the extent of \<^verbatim>\<open>next\<close> is added to the cell of \<^verbatim>\<open>current\<close>
  (a \<^verbatim>\<open>size_t\<close> addition), \<^verbatim>\<open>next\<close> is erased and \<^verbatim>\<open>current\<close> keeps its cell;
  otherwise \<^verbatim>\<open>current\<close> moves on. The result is the storage with the new \<^verbatim>\<open>begin()\<close> and
  \<^verbatim>\<open>end()\<close>.
\<close>

function merge_loop ::
  "Region list \<Rightarrow> nat \<Rightarrow> nat \<Rightarrow> nat \<Rightarrow> Region list \<times> nat \<times> nat" where
  "merge_loop cells b e current =
     (if current + 1 < e
      then (if available (cells ! current) \<and> available (cells ! (current + 1))
            then (let merged = cells[current := (cells ! current)
                        \<lparr>extent := extent (cells ! current) + extent (cells ! (current + 1))\<rparr>]
                  in if erase_at_front b e (current + 1)
                     then merge_loop
                            (if current + 1 \<noteq> b then move_backward b (current + 1) merged
                             else merged)
                            (b + 1) e current
                     else merge_loop
                            (if current + 2 \<noteq> e then move_down (current + 1) e merged
                             else merged)
                            b (e - 1) current)
            else merge_loop cells b e (current + 1))
      else (cells, b, e))"
  by pat_completeness auto
termination
  by (relation "measures [\<lambda>(cells, b, e, current). e - current,
                          \<lambda>(cells, b, e, current). e - b]")
     (auto simp: erase_at_front_def)

text \<open>
  With fewer than two elements nothing happens. Afterwards the deque is what lies between
  \<^verbatim>\<open>begin()\<close> and \<^verbatim>\<open>end()\<close>. (The loop can end with \<^verbatim>\<open>end()\<close> one cell before
  \<^verbatim>\<open>begin()\<close>, as it does on four regions that are all available; the deque is then no
  sequence at all, and the model shows the empty one.)
\<close>

definition merge_adjacent_regions :: "Region list \<Rightarrow> Region list" where
  "merge_adjacent_regions rs =
     (if length rs < 2 then rs
      else case merge_loop rs 0 (length rs) 0 of (cells, b, e) \<Rightarrow> slice b e cells)"

definition validate_address :: "MemoryManager \<Rightarrow> uintptr_t \<Rightarrow> bool" where
  "validate_address m ptr \<longleftrightarrow>
     storage_area m \<le> ptr \<and>
     ptr < storage_area m + total_capacity m * ucast (unit_size m)"

definition convert_to_words :: "MemoryManager \<Rightarrow> size_t \<Rightarrow> fault + size_t" where
  "convert_to_words m bytes =
     (if unit_size m = 0 then Inl DivisionByZero
      else Inr ((bytes + ucast (unit_size m) - 1) div ucast (unit_size m)))"

text \<open>\<^verbatim>\<open>std::find_if\<close> over the deque: the place of the first element that satisfies the test.\<close>

primrec find_if :: "('a \<Rightarrow> bool) \<Rightarrow> 'a list \<Rightarrow> nat option" where
  "find_if P [] = None"
| "find_if P (x # xs) = (if P x then Some 0 else map_option Suc (find_if P xs))"

subsection \<open>Public operations\<close>

definition shutdown :: "MemoryManager \<Rightarrow> MemoryManager" where
  "shutdown m =
     m\<lparr>storage_area := 0, total_capacity := 0, memory_regions := [],
       allocation_table := Map.empty\<rparr>"

text \<open>
  \<^verbatim>\<open>initialize\<close>: the argument \<open>base\<close> is the address that
  \<^verbatim>\<open>new uint8_t[sizeInWords * unit_size]\<close> returns. (When \<^verbatim>\<open>new\<close> throws instead, the manager
  is left as \<open>shutdown\<close> made it.)
\<close>

definition initialize :: "MemoryManager \<Rightarrow> uintptr_t \<Rightarrow> size_t \<Rightarrow> MemoryManager" where
  "initialize m base sizeInWords =
     (shutdown m)\<lparr>storage_area := base, total_capacity := sizeInWords,
       memory_regions := [Region_ctor 0 sizeInWords True],
       allocation_table := Map.empty\<rparr>"

text \<open>
  \<^verbatim>\<open>getList\<close>: the available regions as pairs, sorted with \<^verbatim>\<open>std::sort\<close> (the order of
  \<^verbatim>\<open>std::pair\<close> is lexicographic), then written into a fresh \<^verbatim>\<open>uint16_t\<close> array, every value
  truncated to 16 bits by the assignment.
\<close>

definition free_regions :: "MemoryManager \<Rightarrow> (size_t \<times> size_t) list" where
  "free_regions m =
     sort (map (\<lambda>r. (position r, extent r)) (filter available (memory_regions m)))"

definition region_array :: "(size_t \<times> size_t) list \<Rightarrow> uint16_t list" where
  "region_array fr =
     of_nat (length fr) # concat (map (\<lambda>(p, e). [ucast p, ucast e]) fr)"

definition getList :: "MemoryManager \<Rightarrow> uint16_t list" where
  "getList m = region_array (free_regions m)"

text \<open>
  \<^verbatim>\<open>allocate\<close> returns the address (\<open>0\<close> for \<^verbatim>\<open>nullptr\<close>) and the manager after the call.
  \<^verbatim>\<open>words_required\<close> is narrowed to \<^verbatim>\<open>int\<close> for the strategy, the chosen offset is
  sign-extended for the comparison with a position, and \<^verbatim>\<open>chosen_offset * unit_size\<close> is a
  product of \<^verbatim>\<open>unsigned\<close>. The new region of a split is put at the back of the deque
  (\<^verbatim>\<open>emplace_back\<close>); \<^verbatim>\<open>region_it\<close> is read as a place in the sequence, the elements of
  a deque staying where they are when one is added at the back.
\<close>

definition split_and_mark :: "Region list \<Rightarrow> nat \<Rightarrow> size_t \<Rightarrow> Region list" where
  "split_and_mark rs i words_required =
     (let r = rs ! i;
          rs1 = (if words_required < extent r
                 then (rs @ [Region_ctor (position r + words_required)
                                         (extent r - words_required) True])
                        [i := r\<lparr>extent := words_required\<rparr>]
                 else rs)
      in rs1[i := (rs1 ! i)\<lparr>available := False\<rparr>])"

definition allocate :: "MemoryManager \<Rightarrow> size_t \<Rightarrow> fault + (uintptr_t \<times> MemoryManager)" where
  "allocate m sizeInBytes =
     (if storage_area m = 0 then Inr (0, m)
      else case convert_to_words m sizeInBytes of
        Inl f \<Rightarrow> Inl f
      | Inr words_required \<Rightarrow>
         (case selector m (ucast words_required) (Some (getList m)) of
            Inl f \<Rightarrow> Inl f
          | Inr chosen_offset \<Rightarrow>
             if chosen_offset = - 1 then Inr (0, m)
             else case find_if (\<lambda>r. available r \<and> position r = scast chosen_offset)
                               (memory_regions m) of
                None \<Rightarrow> Inr (0, m)
              | Some i \<Rightarrow>
                 (let regions = split_and_mark (memory_regions m) i words_required;
                      allocated_memory = storage_area m + ucast (chosen_offset * unit_size m);
                      table = (allocation_table m)(allocated_memory \<mapsto> sizeInBytes)
                  in Inr (allocated_memory,
                          m\<lparr>memory_regions := regions, allocation_table := table\<rparr>))))"

text \<open>
  \<^verbatim>\<open>free\<close>: the pointer difference is a \<^verbatim>\<open>ptrdiff_t\<close> and \<^verbatim>\<open>unit_size\<close> is converted to it,
  so the division is the signed one of C++ (towards zero). It is reached only behind
  \<open>validate_address\<close>, which fails for every address when \<open>unit_size\<close> is \<open>0\<close>.
\<close>

definition free_offset :: "MemoryManager \<Rightarrow> uintptr_t \<Rightarrow> size_t" where
  "free_offset m address =
     word_of_int (sint (address - storage_area m) sdiv uint (unit_size m))"

definition free :: "MemoryManager \<Rightarrow> uintptr_t \<Rightarrow> MemoryManager" where
  "free m address =
     (if address = 0 \<or> \<not> validate_address m address then m
      else case allocation_table m address of
        None \<Rightarrow> m
      | Some sz \<Rightarrow>
         (case find_if (\<lambda>r. position r = free_offset m address \<and> \<not> available r)
                       (memory_regions m) of
            None \<Rightarrow> m
          | Some i \<Rightarrow>
             (let freed = (memory_regions m)[i := (memory_regions m ! i)\<lparr>available := True\<rparr>];
                  table = (allocation_table m)(address := None)
              in m\<lparr>memory_regions := merge_adjacent_regions freed,
                   allocation_table := table\<rparr>)))"

definition setAllocator :: "MemoryManager \<Rightarrow> allocator \<Rightarrow> MemoryManager" where
  "setAllocator m alloc = m\<lparr>selector := alloc\<rparr>"

subsection \<open>The two strategies\<close>

text \<open>
  \<^verbatim>\<open>bestFit\<close>: the \<^verbatim>\<open>for\<close> loop over \<^verbatim>\<open>i\<close> collects the holes that are long enough, in
  the order of the array; the first argument of the loop function is the number of rounds
  still to run, \<^verbatim>\<open>num_holes - i\<close>. A cell is read only when it is inside the array.
  \<^verbatim>\<open>std::min_element\<close> keeps the first of the smallest elements: a later element replaces
  the candidate only when the comparison \<^verbatim>\<open>a.waste < b.waste\<close> holds for it.
\<close>

record HoleInfo =
  start :: size_t
  hole_size :: size_t
  waste :: size_t

primrec bestFit_loop ::
  "nat \<Rightarrow> uint16_t list \<Rightarrow> size_t \<Rightarrow> nat \<Rightarrow> HoleInfo list \<Rightarrow> fault + HoleInfo list" where
  "bestFit_loop 0 hole_data need i qualified_holes = Inr qualified_holes"
| "bestFit_loop (Suc k) hole_data need i qualified_holes =
     (if 2 * i + 2 < length hole_data
      then (let pos = ucast (hole_data ! (2 * i + 1));
                len = ucast (hole_data ! (2 * i + 2))
            in bestFit_loop k hole_data need (Suc i)
                 (if need \<le> len
                  then qualified_holes @ [\<lparr>start = pos, hole_size = len, waste = len - need\<rparr>]
                  else qualified_holes))
      else Inl OutOfBoundsRead)"

primrec min_element :: "HoleInfo \<Rightarrow> HoleInfo list \<Rightarrow> HoleInfo" where
  "min_element smallest [] = smallest"
| "min_element smallest (x # xs) =
     min_element (if waste x < waste smallest then x else smallest) xs"

definition bestFit :: allocator where
  "bestFit sizeInWords list =
     (case list of
        None \<Rightarrow> Inr (- 1)
      | Some hole_data \<Rightarrow>
         (case hole_data of
            [] \<Rightarrow> Inl OutOfBoundsRead
          | c # _ \<Rightarrow>
             if unat c = 0 then Inr (- 1)
             else case bestFit_loop (unat c) hole_data (scast sizeInWords) 0 [] of
                Inl f \<Rightarrow> Inl f
              | Inr [] \<Rightarrow> Inr (- 1)
              | Inr (q # qs) \<Rightarrow> Inr (ucast (start (min_element q qs)))))"

text \<open>
  \<^verbatim>\<open>worstFit\<close>: the loop \<^verbatim>\<open>while (count-- > 0)\<close> carries \<^verbatim>\<open>data_idx\<close>, \<^verbatim>\<open>max_pos\<close> and
  \<^verbatim>\<open>biggest_gap\<close>.
\<close>

primrec worstFit_loop ::
  "nat \<Rightarrow> uint16_t list \<Rightarrow> size_t \<Rightarrow> nat \<Rightarrow> c_int \<Rightarrow> size_t \<Rightarrow> fault + c_int" where
  "worstFit_loop 0 holes word_requirement data_idx max_pos biggest_gap = Inr max_pos"
| "worstFit_loop (Suc count) holes word_requirement data_idx max_pos biggest_gap =
     (if data_idx + 1 < length holes
      then (let current_pos = (ucast (holes ! data_idx) :: size_t);
                current_len = (ucast (holes ! (data_idx + 1)) :: size_t)
            in if word_requirement \<le> current_len \<and> biggest_gap < current_len
               then worstFit_loop count holes word_requirement (data_idx + 2)
                      (ucast current_pos) current_len
               else worstFit_loop count holes word_requirement (data_idx + 2)
                      max_pos biggest_gap)
      else Inl OutOfBoundsRead)"

definition worstFit :: allocator where
  "worstFit sizeInWords list =
     (case list of
        None \<Rightarrow> Inr (- 1)
      | Some holes \<Rightarrow>
         (case holes of
            [] \<Rightarrow> Inl OutOfBoundsRead
          | c # _ \<Rightarrow>
             if c = 0 then Inr (- 1)
             else worstFit_loop (unat c) holes (scast sizeInWords) 1 (- 1) 0))"

subsection \<open>Properties of the region sequence\<close>

text \<open>The sum of the extents, as a natural number.\<close>

definition regions_total :: "Region list \<Rightarrow> nat" where
  "regions_total rs = sum_list (map (\<lambda>r. unat (extent r)) rs)"

text \<open>
  Every region starts where the one before it ends, the first one at \<open>p\<close>
  (\<open>contiguous_from 0\<close> for the whole sequence).
\<close>

fun contiguous_from :: "size_t \<Rightarrow> Region list \<Rightarrow> bool" where
  "contiguous_from p [] = True"
| "contiguous_from p (r # rs) = (position r = p \<and> contiguous_from (p + extent r) rs)"

text \<open>Some two neighbours of the sequence are both available.\<close>

fun adjacent_free :: "Region list \<Rightarrow> bool" where
  "adjacent_free (a # b # rs) = ((available a \<and> available b) \<or> adjacent_free (b # rs))"
| "adjacent_free rs = False"

text \<open>
  A well-formed snapshot of holes \<open>(position, extent)\<close>, as an array: the count, then the
  pairs.
\<close>

definition snapshot :: "(uint16_t \<times> uint16_t) list \<Rightarrow> uint16_t list" where
  "snapshot hs = of_nat (length hs) # concat (map (\<lambda>(p, e). [p, e]) hs)"

subsection \<open>Call sequences and example managers\<close>

text \<open>
  A sequence of calls on an initialized manager; the address that \<^verbatim>\<open>allocate\<close> returns is
  dropped, a fault ends the run.
\<close>

datatype call = Allocate size_t | Free uintptr_t | SetAllocator allocator

fun perform :: "call \<Rightarrow> MemoryManager \<Rightarrow> fault + MemoryManager" where
  "perform (Allocate sizeInBytes) m = map_sum id snd (allocate m sizeInBytes)"
| "perform (Free address) m = Inr (free m address)"
| "perform (SetAllocator alloc) m = Inr (setAllocator m alloc)"

fun run :: "call list \<Rightarrow> MemoryManager \<Rightarrow> fault + MemoryManager" where
  "run [] m = Inr m"
| "run (c # cs) m = (case perform c m of Inl f \<Rightarrow> Inl f | Inr m' \<Rightarrow> run cs m')"

text \<open>
  The manager of the scenario of the specification: word size 4, best fit,
  \<^verbatim>\<open>initialize(100)\<close>; the arena is taken to start at address \<open>0x1000\<close>.
\<close>

definition example_manager :: MemoryManager where
  "example_manager = initialize (MemoryManager_ctor 4 bestFit) 0x1000 100"

text \<open>The same manager with an entry in the allocation table that no region answers.\<close>

definition inconsistent_manager :: MemoryManager where
  "inconsistent_manager = example_manager\<lparr>allocation_table := [0x1000 \<mapsto> 40]\<rparr>"

text \<open>A manager after \<^verbatim>\<open>initialize(0)\<close>: the arena has no bytes.\<close>

definition empty_arena :: MemoryManager where
  "empty_arena = initialize (MemoryManager_ctor 4 bestFit) 0x1000 0"

text \<open>
  The scenario continued: \<^verbatim>\<open>allocate(40)\<close>, \<^verbatim>\<open>allocate(8)\<close>, then \<^verbatim>\<open>free\<close> of the first
  block leaves a hole of 10 words in front of an occupied region.
\<close>

definition holed_manager :: MemoryManager where
  "holed_manager = projr (run [Allocate 40, Allocate 8, Free 0x1000] example_manager)"

text \<open>One more \<^verbatim>\<open>allocate(4)\<close>: best fit takes one word out of the hole of 10 words.\<close>

definition fragmented_manager :: MemoryManager where
  "fragmented_manager = projr (run [Allocate 4] holed_manager)"

text \<open>
  Then \<^verbatim>\<open>allocate(352)\<close> takes the 88 words at offset 12, and the block at the base
  address is given back.
\<close>

definition refreed_manager :: MemoryManager where
  "refreed_manager = projr (run [Allocate 352, Free 0x1000] fragmented_manager)"

text \<open>
  Four blocks of one word each at the front of the arena, the first of them given back.
\<close>

definition four_blocks_manager :: MemoryManager where
  "four_blocks_manager =
     projr (run [Allocate 4, Allocate 4, Allocate 4, Allocate 4, Free 0x1000] example_manager)"

text \<open>The manager after the first \<^verbatim>\<open>allocate(40)\<close> of the scenario.\<close>

definition first_allocation :: MemoryManager where
  "first_allocation =
     example_manager\<lparr>memory_regions := [Region_ctor 0 10 False, Region_ctor 10 90 True],
                     allocation_table := [0x1000 \<mapsto> 40]\<rparr>"

text \<open>
  \<^verbatim>\<open>allocate\<close> followed at once by \<^verbatim>\<open>free\<close> of the address it returned: the address and
  the manager after both calls.
\<close>

definition allocate_then_free ::
  "MemoryManager \<Rightarrow> size_t \<Rightarrow> fault + (uintptr_t \<times> MemoryManager)" where
  "allocate_then_free m sizeInBytes =
     (case allocate m sizeInBytes of
        Inl f \<Rightarrow> Inl f
      | Inr (a, m') \<Rightarrow> Inr (a, free m' a))"

text \<open>The regions in the order of their positions.\<close>

definition by_position :: "Region list \<Rightarrow> Region list" where
  "by_position rs = sort_key position rs"

subsection \<open>Notions for the strategies\<close>

text \<open>
  A hole \<open>h = (position, extent)\<close> fits a request of \<open>n\<close> words when its extent is at
  least \<open>n\<close>; what is left over is the difference. The three holes of the example of the
  specification have the sizes 10, 4 and 7.
\<close>

definition fits :: "c_int \<Rightarrow> uint16_t \<times> uint16_t \<Rightarrow> bool" where
  "fits n h \<longleftrightarrow> nat (sint n) \<le> unat (snd h)"

definition leftover :: "c_int \<Rightarrow> uint16_t \<times> uint16_t \<Rightarrow> nat" where
  "leftover n h = unat (snd h) - nat (sint n)"

definition example_holes :: "(uint16_t \<times> uint16_t) list" where
  "example_holes = [(0, 10), (20, 4), (30, 7)]"

text \<open>
  What the two loops compute on the list of holes behind a snapshot: the vector
  \<^verbatim>\<open>qualified_holes\<close> of \<^verbatim>\<open>bestFit\<close>, and the final \<^verbatim>\<open>max_pos\<close> of \<^verbatim>\<open>worstFit\<close>.
\<close>

definition hole_info :: "size_t \<Rightarrow> uint16_t \<times> uint16_t \<Rightarrow> HoleInfo" where
  "hole_info need h =
     \<lparr>start = ucast (fst h), hole_size = ucast (snd h), waste = ucast (snd h) - need\<rparr>"

definition fitting_holes :: "size_t \<Rightarrow> (uint16_t \<times> uint16_t) list \<Rightarrow> HoleInfo list" where
  "fitting_holes need hs = map (hole_info need) (filter (\<lambda>h. need \<le> ucast (snd h)) hs)"

fun worst_scan :: "size_t \<Rightarrow> (uint16_t \<times> uint16_t) list \<Rightarrow> c_int \<Rightarrow> size_t \<Rightarrow> c_int" where
  "worst_scan need [] max_pos biggest_gap = max_pos"
| "worst_scan need (h # hs) max_pos biggest_gap =
     (if need \<le> ucast (snd h) \<and> biggest_gap < ucast (snd h)
      then worst_scan need hs (ucast (fst h)) (ucast (snd h))
      else worst_scan need hs max_pos biggest_gap)"

section \<open>Properties\<close>

subsection \<open>Basic facts\<close>

lemma find_if_None: "find_if P xs = None \<longleftrightarrow> (\<forall>x\<in>set xs. \<not> P x)"
  by (induction xs) auto

lemma unat_ucast_unit: "unat (ucast (u :: unsigned) :: size_t) = unat u"
proof -
  have "unat u < 2 ^ 32" using unsigned_less [of u] by simp
  then have "unat u < 2 ^ 64" by simp
  then show ?thesis by (simp add: unsigned_ucast_eq take_bit_nat_eq_self)
qed

lemmas example_defs =
  example_manager_def inconsistent_manager_def empty_arena_def first_allocation_def
  initialize_def shutdown_def MemoryManager_ctor_def Region_ctor_def

text \<open>
  Four regions that are all available: the loop leaves \<^verbatim>\<open>begin()\<close> at cell 2 and \<^verbatim>\<open>end()\<close>
  at cell 1.
\<close>

lemma merge_loop_all_available:
  "snd (merge_loop [Region_ctor 0 1 True, Region_ctor 1 1 True, Region_ctor 2 1 True,
                    Region_ctor 3 97 True] 0 4 0) = (2, 1)"
  by code_simp

subsection \<open>Rounding a byte count to words\<close>

text \<open>
  Claim C8, as amended. \<^verbatim>\<open>convert_to_words\<close> is the ceiling of \<open>bytes / unit_size\<close>
  whenever the word size is not zero and \<open>bytes + unit_size - 1\<close> does not overflow
  \<^verbatim>\<open>size_t\<close>: at least one word for every positive byte count, and no word at all for a
  byte count of zero.
\<close>

theorem convert_to_words_ceiling:
  assumes "unit_size m \<noteq> 0" and "unat bytes + unat (unit_size m) - 1 < 2 ^ 64"
  shows "\<exists>w. convert_to_words m bytes = Inr w
           \<and> unat w = (unat bytes + unat (unit_size m) - 1) div unat (unit_size m)
           \<and> (bytes \<noteq> 0 \<longrightarrow> 1 \<le> unat w) \<and> (bytes = 0 \<longrightarrow> w = 0)"
proof -
  let ?u = "ucast (unit_size m) :: size_t"
  let ?w = "(bytes + ?u - 1) div ?u"
  have u: "unat ?u = unat (unit_size m)" by (rule unat_ucast_unit)
  have upos: "0 < unat (unit_size m)" using assms(1) by (simp add: unat_gt_0)
  have u1: "1 \<le> ?u" using upos u by (simp add: word_le_nat_alt)
  have m1: "unat (?u - 1) = unat (unit_size m) - 1" using u1 u by (simp add: unat_sub)
  have "unat bytes + unat (?u - 1) < 2 ^ 64" using assms(2) upos m1 by simp
  then have "unat (bytes + (?u - 1)) = unat bytes + unat (?u - 1)"
    by (simp add: unat_add_lem [symmetric])
  moreover have "bytes + (?u - 1) = bytes + ?u - 1" by simp
  ultimately have s: "unat (bytes + ?u - 1) = unat bytes + unat (unit_size m) - 1"
    using m1 upos by simp
  have w: "unat ?w = (unat bytes + unat (unit_size m) - 1) div unat (unit_size m)"
    by (simp add: unat_div s u)
  have c: "convert_to_words m bytes = Inr ?w"
    using assms(1) by (simp add: convert_to_words_def)
  have pos: "1 \<le> unat ?w" if "bytes \<noteq> 0"
  proof -
    have "0 < unat bytes" using that by (simp add: unat_gt_0)
    then have "unat (unit_size m) \<le> unat bytes + unat (unit_size m) - 1" by simp
    then have "1 \<le> (unat bytes + unat (unit_size m) - 1) div unat (unit_size m)"
      using upos by (simp add: Suc_le_eq div_greater_zero_iff)
    then show ?thesis using w by simp
  qed
  have zero: "?w = 0" if "bytes = 0"
  proof -
    have "unat ?w = 0" using w that upos by simp
    then show ?thesis by (simp add: unat_eq_0)
  qed
  from c w pos zero show ?thesis by blast
qed

text \<open>The theorem at the scenario's manager: 41 bytes are 11 words of 4 bytes.\<close>

theorem convert_to_words_ceiling_witness:
  "unit_size example_manager \<noteq> 0
   \<and> unat (41 :: size_t) + unat (unit_size example_manager) - 1 < 2 ^ 64
   \<and> convert_to_words example_manager 41 = Inr 11"
proof -
  have h1: "unit_size example_manager \<noteq> 0" by (simp add: example_defs)
  have h2: "unat (41 :: size_t) + unat (unit_size example_manager) - 1 < 2 ^ 64"
    by (simp add: example_defs)
  have e: "convert_to_words example_manager 41 = Inr 11"
    by (simp add: example_defs convert_to_words_def)
  from convert_to_words_ceiling [OF h1 h2] h1 h2 e show ?thesis by simp
qed

text \<open>
  Claim C8 as the specification states it fails: a request of zero bytes is converted to
  zero words.
\<close>

theorem zero_bytes_zero_words_counterexample:
  "convert_to_words example_manager 0 = Inr 0"
  by (simp add: example_defs convert_to_words_def)

subsection \<open>Calls of free that change nothing\<close>

text \<open>
  Claim C9. \<^verbatim>\<open>free\<close> with the null address, with an address outside the arena, or with an
  address that the allocation table does not hold returns the manager as it was: region
  sequence and allocation table are unchanged, and no error is signalled (\<open>free\<close> has no
  error result). Freeing the same address a second time changes nothing either.
\<close>

theorem free_invalid_noop:
  "(address = 0 \<or> \<not> validate_address m address \<or> allocation_table m address = None
      \<longrightarrow> free m address = m)
   \<and> free (free m address) address = free m address"
proof
  show "address = 0 \<or> \<not> validate_address m address \<or> allocation_table m address = None
      \<longrightarrow> free m address = m"
    by (auto simp: free_def)
next
  show "free (free m address) address = free m address"
  proof (cases "address = 0 \<or> \<not> validate_address m address")
    case True
    then show ?thesis by (simp add: free_def)
  next
    case valid: False
    show ?thesis
    proof (cases "allocation_table m address")
      case None
      with valid show ?thesis by (simp add: free_def)
    next
      case entry: (Some sz)
      show ?thesis
      proof (cases "find_if (\<lambda>r. position r = free_offset m address \<and> \<not> available r)
                      (memory_regions m)")
        case None
        with valid entry show ?thesis by (simp add: free_def)
      next
        case (Some i)
        with valid entry show ?thesis
          by (simp add: free_def Let_def validate_address_def)
      qed
    qed
  qed
qed

text \<open>
  The theorem at the scenario's manager: an address beyond the 400 bytes of the arena, an
  address inside the arena that was never returned, the null address, and a second
  \<^verbatim>\<open>free\<close> of the block of the first allocation (the first \<^verbatim>\<open>free\<close> releases it).
\<close>

theorem free_invalid_noop_witness:
  "\<not> validate_address example_manager 0x2000
   \<and> free example_manager 0x2000 = example_manager
   \<and> allocation_table example_manager 0x1004 = None
   \<and> free example_manager 0x1004 = example_manager
   \<and> free example_manager 0 = example_manager
   \<and> memory_regions (free first_allocation 0x1000) = [Region_ctor 0 100 True]
   \<and> free (free first_allocation 0x1000) 0x1000 = free first_allocation 0x1000"
proof -
  have outside: "\<not> validate_address example_manager 0x2000"
    by (simp add: example_defs validate_address_def)
  have unknown: "allocation_table example_manager 0x1004 = None"
    by (simp add: example_defs)
  have released: "memory_regions (free first_allocation 0x1000) = [Region_ctor 0 100 True]"
    by code_simp
  from free_invalid_noop [of "0x2000" example_manager]
    free_invalid_noop [of "0x1004" example_manager]
    free_invalid_noop [of 0 example_manager]
    free_invalid_noop [of "0x1000" first_allocation]
    outside unknown released
  show ?thesis by simp
qed

text \<open>
  Claim C10. When the address is in the allocation table but no occupied region starts at
  its word offset, \<^verbatim>\<open>free\<close> returns the manager as it was; the entry of the table stays.
\<close>

theorem free_inconsistent_noop:
  assumes "address \<noteq> 0" and "validate_address m address"
    and "allocation_table m address = Some sz"
    and "\<forall>r\<in>set (memory_regions m). position r = free_offset m address \<longrightarrow> available r"
  shows "free m address = m \<and> allocation_table (free m address) address = Some sz"
proof -
  have "find_if (\<lambda>r. position r = free_offset m address \<and> \<not> available r)
          (memory_regions m) = None"
    using assms(4) by (auto simp: find_if_None)
  then show ?thesis using assms(1-3) by (simp add: free_def)
qed

theorem free_inconsistent_noop_witness:
  "(0x1000 :: uintptr_t) \<noteq> 0
   \<and> validate_address inconsistent_manager 0x1000
   \<and> allocation_table inconsistent_manager 0x1000 = Some 40
   \<and> free inconsistent_manager 0x1000 = inconsistent_manager
   \<and> allocation_table (free inconsistent_manager 0x1000) 0x1000 = Some 40"
proof -
  have h1: "(0x1000 :: uintptr_t) \<noteq> 0" by simp
  have h2: "validate_address inconsistent_manager 0x1000"
    by (simp add: example_defs validate_address_def)
  have h3: "allocation_table inconsistent_manager 0x1000 = Some 40"
    by (simp add: example_defs)
  have h4: "\<forall>r\<in>set (memory_regions inconsistent_manager).
              position r = free_offset inconsistent_manager 0x1000 \<longrightarrow> available r"
    by (simp add: example_defs)
  from free_inconsistent_noop [OF h1 h2 h3 h4] h1 h2 h3 show ?thesis by simp
qed

subsection \<open>The managers of the scenario\<close>

lemma run_append:
  "run (cs @ ds) m = (case run cs m of Inl f \<Rightarrow> Inl f | Inr m' \<Rightarrow> run ds m')"
  by (induction cs arbitrary: m) (simp_all split: sum.splits)

lemma holed_run:
  "run [Allocate 40, Allocate 8, Free 0x1000] example_manager = Inr holed_manager"
proof -
  have "\<not> isl (run [Allocate 40, Allocate 8, Free 0x1000] example_manager)"
    by code_simp
  then show ?thesis by (simp add: holed_manager_def)
qed

lemma fragmented_run: "run [Allocate 4] holed_manager = Inr fragmented_manager"
proof -
  have "\<not> isl (run [Allocate 4] holed_manager)"
    by code_simp
  then show ?thesis by (simp add: fragmented_manager_def)
qed

lemma refreed_run: "run [Allocate 352, Free 0x1000] fragmented_manager = Inr refreed_manager"
proof -
  have "\<not> isl (run [Allocate 352, Free 0x1000] fragmented_manager)"
    by code_simp
  then show ?thesis by (simp add: refreed_manager_def)
qed

lemma four_blocks_run:
  "run [Allocate 4, Allocate 4, Allocate 4, Allocate 4, Free 0x1000] example_manager
     = Inr four_blocks_manager"
proof -
  have "\<not> isl (run [Allocate 4, Allocate 4, Allocate 4, Allocate 4, Free 0x1000]
                  example_manager)"
    by code_simp
  then show ?thesis by (simp add: four_blocks_manager_def)
qed

subsection \<open>The sum of the extents\<close>

text \<open>
  Claim C4, at the input where the code leaves it. After \<^verbatim>\<open>initialize(100)\<close>, four calls
  \<^verbatim>\<open>allocate(4)\<close> and \<^verbatim>\<open>free\<close> of the first block the five regions sum to 100 words.
  \<^verbatim>\<open>free\<close> of the second block makes the first two regions of the deque available; the
  merge erases the second one, which is not the last element, and goes on with the
  iterator \<^verbatim>\<open>current\<close>, now a cell before \<^verbatim>\<open>begin()\<close>. The merged region and the occupied
  region \<open>(2, 1)\<close> are lost: two regions are left, and their extents sum to 97 words,
  while \<^verbatim>\<open>total_capacity\<close> still is 100.
\<close>

theorem merge_loses_regions:
  "run [Allocate 4, Allocate 4, Allocate 4, Allocate 4, Free 0x1000] example_manager
     = Inr four_blocks_manager
   \<and> memory_regions four_blocks_manager
     = [Region_ctor 0 1 True, Region_ctor 1 1 False, Region_ctor 2 1 False,
        Region_ctor 3 1 False, Region_ctor 4 96 True]
   \<and> regions_total (memory_regions four_blocks_manager) = 100
   \<and> memory_regions (free four_blocks_manager 0x1004)
     = [Region_ctor 3 1 False, Region_ctor 4 96 True]
   \<and> regions_total (memory_regions (free four_blocks_manager 0x1004)) = 97
   \<and> total_capacity (free four_blocks_manager 0x1004) = 100"
proof -
  have before: "memory_regions four_blocks_manager
     = [Region_ctor 0 1 True, Region_ctor 1 1 False, Region_ctor 2 1 False,
        Region_ctor 3 1 False, Region_ctor 4 96 True]"
    by code_simp
  have sum_before: "regions_total (memory_regions four_blocks_manager) = 100"
    by code_simp
  have after: "memory_regions (free four_blocks_manager 0x1004)
     = [Region_ctor 3 1 False, Region_ctor 4 96 True]"
    by code_simp
  have sum_after: "regions_total (memory_regions (free four_blocks_manager 0x1004)) = 97"
    by code_simp
  have capacity: "total_capacity (free four_blocks_manager 0x1004) = 100"
    by code_simp
  from four_blocks_run before sum_before after sum_after capacity show ?thesis by simp
qed

subsection \<open>Where a split puts the remainder\<close>

text \<open>
  Claim C1, at the input where the code leaves it. After \<^verbatim>\<open>initialize(100)\<close>,
  \<^verbatim>\<open>allocate(40)\<close>, \<^verbatim>\<open>allocate(8)\<close>, \<^verbatim>\<open>free\<close> of the first block and \<^verbatim>\<open>allocate(4)\<close>,
  the remainder \<open>(1, 9)\<close> of the split stands at the back of the sequence, behind
  \<open>(12, 88)\<close>: the sequence is not in the order of positions and not contiguous. A
  later \<^verbatim>\<open>free\<close> of the second block then merges \<open>(10, 2)\<close>, \<open>(12, 88)\<close> and \<open>(1, 9)\<close> into
  one region of 99 words at offset 10, which ends beyond the 100 words of the arena.
\<close>

theorem split_breaks_position_order:
  "run [Allocate 40, Allocate 8, Free 0x1000, Allocate 4] example_manager
     = Inr fragmented_manager
   \<and> memory_regions fragmented_manager
     = [Region_ctor 0 1 False, Region_ctor 10 2 False, Region_ctor 12 88 True,
        Region_ctor 1 9 True]
   \<and> \<not> contiguous_from 0 (memory_regions fragmented_manager)
   \<and> map_sum id memory_regions (run [Free 0x1028] fragmented_manager)
     = Inr [Region_ctor 0 1 False, Region_ctor 10 99 True]"
proof -
  have calls: "[Allocate 40, Allocate 8, Free 0x1000, Allocate 4]
                 = [Allocate 40, Allocate 8, Free 0x1000] @ [Allocate 4]"
    by simp
  have r: "run [Allocate 40, Allocate 8, Free 0x1000, Allocate 4] example_manager
          = Inr fragmented_manager"
    unfolding calls by (simp only: run_append holed_run sum.case fragmented_run)
  have regions: "memory_regions fragmented_manager
     = [Region_ctor 0 1 False, Region_ctor 10 2 False, Region_ctor 12 88 True,
        Region_ctor 1 9 True]"
    by code_simp
  have gap: "\<not> contiguous_from 0 (memory_regions fragmented_manager)"
    by code_simp
  have merged: "map_sum id memory_regions (run [Free 0x1028] fragmented_manager)
     = Inr [Region_ctor 0 1 False, Region_ctor 10 99 True]"
    by code_simp
  from r regions gap merged show ?thesis by simp
qed

text \<open>
  Claim C2, at the input where the code leaves it. The manager has the regions
  \<open>(0, 10)\<close> free, \<open>(10, 2)\<close> occupied and \<open>(12, 88)\<close> free. \<^verbatim>\<open>allocate(4)\<close> needs one
  word and selects \<open>(0, 10)\<close>: the region is shrunk to one word and marked occupied, and
  the remainder \<open>(1, 9)\<close> is new and free, but it is the last element of the sequence, not
  the element after the region that was split.
\<close>

theorem split_appends_remainder_at_back:
  "memory_regions holed_manager
     = [Region_ctor 0 10 True, Region_ctor 10 2 False, Region_ctor 12 88 True]
   \<and> map_sum id fst (allocate holed_manager 4) = Inr 0x1000
   \<and> map_sum id (memory_regions \<circ> snd) (allocate holed_manager 4)
     = Inr [Region_ctor 0 1 False, Region_ctor 10 2 False, Region_ctor 12 88 True,
            Region_ctor 1 9 True]"
proof -
  have before: "memory_regions holed_manager
     = [Region_ctor 0 10 True, Region_ctor 10 2 False, Region_ctor 12 88 True]"
    by code_simp
  have address: "map_sum id fst (allocate holed_manager 4) = Inr 0x1000"
    by code_simp
  have after: "map_sum id (memory_regions \<circ> snd) (allocate holed_manager 4)
     = Inr [Region_ctor 0 1 False, Region_ctor 10 2 False, Region_ctor 12 88 True,
            Region_ctor 1 9 True]"
    by code_simp
  from before address after show ?thesis by simp
qed

text \<open>
  Claim C3, at the inputs where the code leaves it. In the state of claim C1 the free
  regions \<open>(12, 88)\<close> and \<open>(1, 9)\<close> are neighbours in the sequence, and a call of
  \<^verbatim>\<open>free\<close> with the null address returns with both still free. After \<^verbatim>\<open>allocate(352)\<close> and
  a \<^verbatim>\<open>free\<close> of the block at the base address, which does release a region and does run
  the merge, the free regions \<open>(0, 1)\<close> and \<open>(1, 9)\<close> are neighbours in the order of
  positions, and they are still two regions.
\<close>

theorem free_leaves_adjacent_free_regions:
  "adjacent_free (memory_regions (free fragmented_manager 0))
   \<and> run [Allocate 352, Free 0x1000] fragmented_manager = Inr refreed_manager
   \<and> memory_regions refreed_manager
     = [Region_ctor 0 1 True, Region_ctor 10 2 False, Region_ctor 12 88 False,
        Region_ctor 1 9 True]
   \<and> by_position (memory_regions refreed_manager)
     = [Region_ctor 0 1 True, Region_ctor 1 9 True, Region_ctor 10 2 False,
        Region_ctor 12 88 False]
   \<and> adjacent_free (by_position (memory_regions refreed_manager))"
proof -
  have null: "adjacent_free (memory_regions (free fragmented_manager 0))"
    by code_simp
  have regions: "memory_regions refreed_manager
     = [Region_ctor 0 1 True, Region_ctor 10 2 False, Region_ctor 12 88 False,
        Region_ctor 1 9 True]"
    by code_simp
  have sorted: "by_position (memory_regions refreed_manager)
     = [Region_ctor 0 1 True, Region_ctor 1 9 True, Region_ctor 10 2 False,
        Region_ctor 12 88 False]"
    by code_simp
  have pair: "adjacent_free (by_position (memory_regions refreed_manager))"
    by code_simp
  from null refreed_run regions sorted pair show ?thesis by simp
qed

subsection \<open>Allocating and freeing at once\<close>

text \<open>
  Claim C5, at the input where the code leaves it. After \<^verbatim>\<open>initialize(0)\<close> the one
  region \<open>(0, 0)\<close> is free and the allocation table is empty. A request of \<open>2 ^ 34\<close>
  bytes is \<open>2 ^ 32\<close> words, which the narrowing to \<^verbatim>\<open>int\<close> turns into \<open>0\<close>; best fit
  then accepts the region of no words, and \<^verbatim>\<open>allocate\<close> marks it occupied and returns
  the base address. \<open>validate_address\<close> rejects every address of an arena without
  bytes, so the \<^verbatim>\<open>free\<close> that follows does nothing: the list of free regions was
  \<open>[(0, 0)]\<close> and is empty afterwards.
\<close>

theorem round_trip_fails_on_empty_arena:
  "list_all available (memory_regions empty_arena)
   \<and> dom (allocation_table empty_arena) = {}
   \<and> free_regions empty_arena = [(0, 0)]
   \<and> (0 :: size_t) < 2 ^ 34
   \<and> map_sum id fst (allocate_then_free empty_arena (2 ^ 34)) = Inr 0x1000
   \<and> map_sum id (free_regions \<circ> snd) (allocate_then_free empty_arena (2 ^ 34)) = Inr []"
proof -
  have free_before: "list_all available (memory_regions empty_arena)"
    by code_simp
  have no_entry: "dom (allocation_table empty_arena) = {}"
    by (simp add: example_defs)
  have before: "free_regions empty_arena = [(0, 0)]"
    by code_simp
  have positive: "(0 :: size_t) < 2 ^ 34" by simp
  have address: "map_sum id fst (allocate_then_free empty_arena (2 ^ 34)) = Inr 0x1000"
    by code_simp
  have after: "map_sum id (free_regions \<circ> snd) (allocate_then_free empty_arena (2 ^ 34))
                 = Inr []"
    by code_simp
  from free_before no_entry before positive address after show ?thesis by simp
qed

subsection \<open>The strategies on a snapshot\<close>

lemma flat_nth:
  "i < length hs \<Longrightarrow>
   concat (map (\<lambda>(p, e). [p, e]) hs) ! (2 * i) = fst (hs ! i) \<and>
   concat (map (\<lambda>(p, e). [p, e]) hs) ! (2 * i + 1) = snd (hs ! i)"
proof (induction hs arbitrary: i)
  case Nil
  then show ?case by simp
next
  case (Cons h hs)
  show ?case
  proof (cases i)
    case 0
    then show ?thesis by (simp add: case_prod_beta)
  next
    case (Suc j)
    with Cons.prems have "j < length hs" by simp
    from Cons.IH [OF this] Suc show ?thesis by (simp add: case_prod_beta)
  qed
qed

lemma snapshot_length: "length (snapshot hs) = 2 * length hs + 1"
  by (induction hs) (simp_all add: snapshot_def case_prod_beta)

lemma snapshot_nth:
  assumes "i < length hs"
  shows "snapshot hs ! Suc (2 * i) = fst (hs ! i)"
    and "snapshot hs ! Suc (Suc (2 * i)) = snd (hs ! i)"
  using flat_nth [OF assms] by (simp_all add: snapshot_def)

lemma snapshot_count:
  "length hs < 65536 \<Longrightarrow> unat (hd (snapshot hs)) = length hs"
  by (simp add: snapshot_def unat_of_nat)

lemma bestFit_loop_snapshot:
  "i + k = length hs \<Longrightarrow>
   bestFit_loop k (snapshot hs) need i acc = Inr (acc @ fitting_holes need (drop i hs))"
proof (induction k arbitrary: i acc)
  case 0
  then show ?case by (simp add: fitting_holes_def)
next
  case (Suc k)
  then have i: "i < length hs" by simp
  have d: "drop i hs = hs ! i # drop (Suc i) hs"
    using i by (simp add: Cons_nth_drop_Suc)
  have "Suc i + k = length hs" using Suc.prems by simp
  from Suc.IH [OF this] i show ?case
    by (simp add: snapshot_length snapshot_nth d fitting_holes_def hole_info_def Let_def)
qed

lemma bestFit_snapshot:
  assumes "length hs < 65536"
  shows "bestFit n (Some (snapshot hs)) =
     (case fitting_holes (scast n) hs of [] \<Rightarrow> Inr (- 1)
      | q # qs \<Rightarrow> Inr (ucast (start (min_element q qs))))"
proof (cases "hs = []")
  case True
  then show ?thesis by (simp add: bestFit_def snapshot_def fitting_holes_def)
next
  case False
  obtain c rest where s: "snapshot hs = c # rest" by (simp add: snapshot_def)
  with snapshot_count [OF assms] have c: "unat c = length hs" by simp
  with False have "unat c \<noteq> 0" by simp
  moreover have "bestFit_loop (unat c) (snapshot hs) (scast n) 0 [] = Inr (fitting_holes (scast n) hs)"
    using bestFit_loop_snapshot [of 0 "unat c" hs "scast n" "[]"] c by simp
  ultimately show ?thesis using s by (simp add: bestFit_def split: list.splits)
qed

lemma min_element_first_least:
  "(min_element s xs = s \<and> (\<forall>x\<in>set xs. waste s \<le> waste x)) \<or>
   (\<exists>A B. xs = A @ min_element s xs # B \<and> waste (min_element s xs) < waste s
      \<and> (\<forall>a\<in>set A. waste (min_element s xs) < waste a)
      \<and> (\<forall>b\<in>set B. waste (min_element s xs) \<le> waste b))"
proof (induction xs arbitrary: s)
  case Nil
  then show ?case by simp
next
  case (Cons x xs)
  let ?r = "min_element s (x # xs)"
  show ?case
  proof (cases "waste x < waste s")
    case True
    then have r: "?r = min_element x xs" by simp
    from Cons.IH [of x] show ?thesis
    proof (elim disjE exE conjE)
      assume "min_element x xs = x" "\<forall>y\<in>set xs. waste x \<le> waste y"
      with True r have "x # xs = [] @ ?r # xs \<and> waste ?r < waste s
        \<and> (\<forall>a\<in>set []. waste ?r < waste a) \<and> (\<forall>b\<in>set xs. waste ?r \<le> waste b)"
        by simp
      then show ?thesis by blast
    next
      fix A B
      assume "xs = A @ min_element x xs # B" "waste (min_element x xs) < waste x"
        "\<forall>a\<in>set A. waste (min_element x xs) < waste a"
        "\<forall>b\<in>set B. waste (min_element x xs) \<le> waste b"
      with True r have "x # xs = (x # A) @ ?r # B \<and> waste ?r < waste s
        \<and> (\<forall>a\<in>set (x # A). waste ?r < waste a) \<and> (\<forall>b\<in>set B. waste ?r \<le> waste b)"
        by auto
      then show ?thesis by blast
    qed
  next
    case False
    then have r: "?r = min_element s xs" by simp
    from Cons.IH [of s] show ?thesis
    proof (elim disjE exE conjE)
      assume "min_element s xs = s" "\<forall>y\<in>set xs. waste s \<le> waste y"
      with False r show ?thesis by auto
    next
      fix A B
      assume "xs = A @ min_element s xs # B" "waste (min_element s xs) < waste s"
        "\<forall>a\<in>set A. waste (min_element s xs) < waste a"
        "\<forall>b\<in>set B. waste (min_element s xs) \<le> waste b"
      with False r have "x # xs = (x # A) @ ?r # B \<and> waste ?r < waste s
        \<and> (\<forall>a\<in>set (x # A). waste ?r < waste a) \<and> (\<forall>b\<in>set B. waste ?r \<le> waste b)"
        by auto
      then show ?thesis by blast
    qed
  qed
qed

lemma min_element_split:
  "\<exists>A B. q # qs = A @ min_element q qs # B
     \<and> (\<forall>a\<in>set A. waste (min_element q qs) < waste a)
     \<and> (\<forall>b\<in>set B. waste (min_element q qs) \<le> waste b)"
  using min_element_first_least [of q qs]
proof (elim disjE exE conjE)
  assume "min_element q qs = q" "\<forall>x\<in>set qs. waste q \<le> waste x"
  then have "q # qs = [] @ min_element q qs # qs
     \<and> (\<forall>a\<in>set []. waste (min_element q qs) < waste a)
     \<and> (\<forall>b\<in>set qs. waste (min_element q qs) \<le> waste b)" by simp
  then show ?thesis by blast
next
  fix A B
  assume "qs = A @ min_element q qs # B" "waste (min_element q qs) < waste q"
     "\<forall>a\<in>set A. waste (min_element q qs) < waste a"
     "\<forall>b\<in>set B. waste (min_element q qs) \<le> waste b"
  then have "q # qs = (q # A) @ min_element q qs # B
     \<and> (\<forall>a\<in>set (q # A). waste (min_element q qs) < waste a)
     \<and> (\<forall>b\<in>set B. waste (min_element q qs) \<le> waste b)" by auto
  then show ?thesis by blast
qed

lemma map_filter_split:
  "map f (filter P xs) = A @ r # B \<Longrightarrow>
   \<exists>pre h post. xs = pre @ h # post \<and> P h \<and> f h = r
      \<and> map f (filter P pre) = A \<and> map f (filter P post) = B"
proof (induction xs arbitrary: A)
  case Nil
  then show ?case by simp
next
  case (Cons x xs)
  show ?case
  proof (cases "P x")
    case False
    with Cons.prems have "map f (filter P xs) = A @ r # B" by simp
    from Cons.IH [OF this] obtain pre h post where
      "xs = pre @ h # post" "P h" "f h = r" "map f (filter P pre) = A" "map f (filter P post) = B"
      by blast
    with False have "x # xs = (x # pre) @ h # post \<and> P h \<and> f h = r
      \<and> map f (filter P (x # pre)) = A \<and> map f (filter P post) = B" by simp
    then show ?thesis by blast
  next
    case True
    show ?thesis
    proof (cases A)
      case Nil
      with True Cons.prems have "x # xs = [] @ x # xs \<and> P x \<and> f x = r
        \<and> map f (filter P []) = A \<and> map f (filter P xs) = B" by simp
      then show ?thesis by blast
    next
      case (Cons a A')
      with True Cons.prems have "map f (filter P xs) = A' @ r # B" and a: "f x = a" by simp_all
      from Cons.IH [OF this(1)] obtain pre h post where
        "xs = pre @ h # post" "P h" "f h = r" "map f (filter P pre) = A'" "map f (filter P post) = B"
        by blast
      with True a Cons have "x # xs = (x # pre) @ h # post \<and> P h \<and> f h = r
        \<and> map f (filter P (x # pre)) = A \<and> map f (filter P post) = B" by simp
      then show ?thesis by blast
    qed
  qed
qed


lemma unat_ucast_cell: "unat (ucast (e :: uint16_t) :: size_t) = unat e"
proof -
  have "unat e < 2 ^ 16" using unsigned_less [of e] by simp
  then have "unat e < 2 ^ 64" by simp
  then show ?thesis by (simp add: unsigned_ucast_eq take_bit_nat_eq_self)
qed

lemma unat_scast_positive:
  assumes "0 < sint (n :: c_int)"
  shows "unat (scast n :: size_t) = nat (sint n)"
proof -
  have up: "sint (scast n :: size_t) = sint n"
    by (rule sint_up_scast) (simp add: is_up)
  have "sint n < 2 ^ 31" using sint_lt [of n] by simp
  then have "sint n < 2 ^ 64" by simp
  with assms have "take_bit 64 (sint n) = sint n"
    by (simp add: take_bit_int_eq_self)
  with up have "uint (scast n :: size_t) = sint n"
    using uint_sint [of "scast n :: size_t"] by simp
  then show ?thesis by (simp add: unat_eq_nat_uint)
qed

lemma ucast_cell_int: "(ucast (ucast (p :: uint16_t) :: size_t) :: c_int) = ucast p"
  by (rule ucast_up_ucast) (simp add: is_up)

lemma ucast_cell_not_minus_one: "(ucast (p :: uint16_t) :: c_int) \<noteq> - 1"
proof
  assume "(ucast p :: c_int) = - 1"
  then have "unat (ucast p :: c_int) = unat (- 1 :: c_int)" by simp
  moreover have "unat (ucast p :: c_int) = unat p"
  proof -
    have "unat p < 2 ^ 16" using unsigned_less [of p] by simp
    then have "unat p < 2 ^ 32" by simp
    then show ?thesis by (simp add: unsigned_ucast_eq take_bit_nat_eq_self)
  qed
  moreover have "unat p < 2 ^ 16" using unsigned_less [of p] by simp
  ultimately show False by (simp add: unsigned_minus_1_eq_mask mask_eq_exp_minus_1)
qed

lemma fits_word:
  assumes "0 < sint n"
  shows "(scast n :: size_t) \<le> ucast (snd h) \<longleftrightarrow> fits n h"
  by (simp add: word_le_nat_alt unat_ucast_cell unat_scast_positive [OF assms] fits_def)

lemma waste_leftover:
  assumes "0 < sint n" and "fits n h"
  shows "unat (waste (hole_info (scast n) h)) = leftover n h"
proof -
  have "(scast n :: size_t) \<le> ucast (snd h)" using assms by (simp add: fits_word)
  then have "unat (ucast (snd h) - (scast n :: size_t)) = unat (ucast (snd h) :: size_t) - unat (scast n :: size_t)"
    by (rule unat_sub)
  then show ?thesis
    by (simp add: hole_info_def leftover_def unat_ucast_cell unat_scast_positive [OF assms(1)])
qed

text \<open>
  Claim C6. For a positive number \<open>n\<close> of words and a snapshot of the holes \<open>hs\<close>:
  when some hole fits, \<^verbatim>\<open>bestFit\<close> returns the position of a hole \<open>h\<close> that fits, whose
  leftover \<open>extent - n\<close> is smaller than that of every fitting hole before it in the
  snapshot and not larger than that of every fitting hole after it (the least leftover,
  the first one among equals); when no hole fits it returns \<open>-1\<close>. And \<open>-1\<close> is
  returned exactly when no hole fits.
\<close>

theorem bestFit_least_leftover:
  assumes "0 < sint n" and "length hs < 65536"
  shows "(if \<exists>h\<in>set hs. fits n h
          then \<exists>pre h post. hs = pre @ h # post \<and> fits n h
                 \<and> bestFit n (Some (snapshot hs)) = Inr (ucast (fst h))
                 \<and> (\<forall>x\<in>set pre. fits n x \<longrightarrow> leftover n h < leftover n x)
                 \<and> (\<forall>x\<in>set post. fits n x \<longrightarrow> leftover n h \<le> leftover n x)
          else bestFit n (Some (snapshot hs)) = Inr (- 1))
       \<and> (bestFit n (Some (snapshot hs)) = Inr (- 1) \<longleftrightarrow> \<not> (\<exists>h\<in>set hs. fits n h))"
proof (cases "\<exists>h\<in>set hs. fits n h")
  case False
  then have "fitting_holes (scast n) hs = []"
    by (simp add: fitting_holes_def fits_word [OF assms(1)] filter_empty_conv)
  then have "bestFit n (Some (snapshot hs)) = Inr (- 1)"
    by (simp add: bestFit_snapshot [OF assms(2)])
  with False show ?thesis by simp
next
  case True
  let ?P = "\<lambda>h. (scast n :: size_t) \<le> ucast (snd h)"
  let ?f = "hole_info (scast n)"
  from True have "filter ?P hs \<noteq> []"
    by (simp add: fits_word [OF assms(1)] filter_empty_conv)
  then obtain q qs where q: "fitting_holes (scast n) hs = q # qs"
    by (cases "fitting_holes (scast n) hs") (simp_all add: fitting_holes_def)
  let ?r = "min_element q qs"
  have best: "bestFit n (Some (snapshot hs)) = Inr (ucast (start ?r))"
    by (simp add: bestFit_snapshot [OF assms(2)] q)
  from min_element_split [of q qs] obtain A B where
    AB: "q # qs = A @ ?r # B" and A: "\<forall>a\<in>set A. waste ?r < waste a"
    and B: "\<forall>b\<in>set B. waste ?r \<le> waste b"
    by blast
  from q AB have "map ?f (filter ?P hs) = A @ ?r # B" by (simp add: fitting_holes_def)
  from map_filter_split [OF this] obtain pre h post where
    hs: "hs = pre @ h # post" and h: "?P h" "?f h = ?r"
    and pre: "map ?f (filter ?P pre) = A" and post: "map ?f (filter ?P post) = B"
    by blast
  have fh: "fits n h" using h(1) by (simp add: fits_word [OF assms(1)])
  have res: "bestFit n (Some (snapshot hs)) = Inr (ucast (fst h))"
    using best h(2) [symmetric] by (simp add: hole_info_def ucast_cell_int)
  have p1: "leftover n h < leftover n x" if "x \<in> set pre" "fits n x" for x
  proof -
    have "?f x \<in> set A" using that pre [symmetric] by (simp add: fits_word [OF assms(1)])
    with A have "waste (?f h) < waste (?f x)" using h(2) by simp
    then show ?thesis
      by (simp add: word_less_nat_alt waste_leftover [OF assms(1)] fh that(2))
  qed
  have p2: "leftover n h \<le> leftover n x" if "x \<in> set post" "fits n x" for x
  proof -
    have "?f x \<in> set B" using that post [symmetric] by (simp add: fits_word [OF assms(1)])
    with B have "waste (?f h) \<le> waste (?f x)" using h(2) by simp
    then show ?thesis
      by (simp add: word_le_nat_alt waste_leftover [OF assms(1)] fh that(2))
  qed
  from hs fh res p1 p2 have "\<exists>pre h post. hs = pre @ h # post \<and> fits n h
                 \<and> bestFit n (Some (snapshot hs)) = Inr (ucast (fst h))
                 \<and> (\<forall>x\<in>set pre. fits n x \<longrightarrow> leftover n h < leftover n x)
                 \<and> (\<forall>x\<in>set post. fits n x \<longrightarrow> leftover n h \<le> leftover n x)"
    by blast
  moreover have "bestFit n (Some (snapshot hs)) \<noteq> Inr (- 1)"
    using res ucast_cell_not_minus_one by simp
  ultimately show ?thesis using True by simp
qed

text \<open>The holes of sizes 10, 4 and 7 and a request of 5 words: the hole of size 7.\<close>

theorem bestFit_least_leftover_witness:
  "0 < sint (5 :: c_int) \<and> length example_holes < 65536
   \<and> bestFit 5 (Some (snapshot example_holes)) = Inr 30"
proof -
  have h1: "0 < sint (5 :: c_int)" by simp
  have h2: "length example_holes < 65536" by (simp add: example_holes_def)
  have e: "bestFit 5 (Some (snapshot example_holes)) = Inr 30"
    by code_simp
  from bestFit_least_leftover [OF h1 h2] h1 h2 e show ?thesis by blast
qed

lemma worstFit_loop_snapshot:
  "i + k = length hs \<Longrightarrow>
   worstFit_loop k (snapshot hs) need (2 * i + 1) max_pos biggest_gap
     = Inr (worst_scan need (drop i hs) max_pos biggest_gap)"
proof (induction k arbitrary: i max_pos biggest_gap)
  case 0
  then show ?case by simp
next
  case (Suc k)
  then have i: "i < length hs" by simp
  have d: "drop i hs = hs ! i # drop (Suc i) hs"
    using i by (simp add: Cons_nth_drop_Suc)
  have "Suc i + k = length hs" using Suc.prems by simp
  from Suc.IH [OF this] i show ?case
    by (simp add: snapshot_length snapshot_nth d Let_def ucast_cell_int)
qed

lemma worstFit_snapshot:
  assumes "length hs < 65536"
  shows "worstFit n (Some (snapshot hs)) = Inr (worst_scan (scast n) hs (- 1) 0)"
proof (cases "hs = []")
  case True
  then show ?thesis by (simp add: worstFit_def snapshot_def)
next
  case False
  obtain c rest where s: "snapshot hs = c # rest" by (simp add: snapshot_def)
  with snapshot_count [OF assms] have c: "unat c = length hs" by simp
  with False have "c \<noteq> 0" by auto
  moreover have "worstFit_loop (unat c) (snapshot hs) (scast n) 1 (- 1) 0
                   = Inr (worst_scan (scast n) hs (- 1) 0)"
    using worstFit_loop_snapshot [of 0 "unat c" hs "scast n" "- 1" 0] c by simp
  ultimately show ?thesis using s by (simp add: worstFit_def)
qed

lemma worst_scan_first_largest:
  "(worst_scan need hs mp bg = mp
      \<and> (\<forall>x\<in>set hs. need \<le> ucast (snd x) \<longrightarrow> (ucast (snd x) :: size_t) \<le> bg)) \<or>
   (\<exists>pre h post. hs = pre @ h # post \<and> need \<le> ucast (snd h) \<and> bg < ucast (snd h)
      \<and> worst_scan need hs mp bg = ucast (fst h)
      \<and> (\<forall>x\<in>set pre. need \<le> ucast (snd x) \<longrightarrow> (ucast (snd x) :: size_t) < ucast (snd h))
      \<and> (\<forall>x\<in>set post. need \<le> ucast (snd x) \<longrightarrow> (ucast (snd x) :: size_t) \<le> ucast (snd h)))"
proof (induction hs arbitrary: mp bg)
  case Nil
  then show ?case by simp
next
  case (Cons y hs)
  let ?e = "ucast (snd y) :: size_t"
  show ?case
  proof (cases "need \<le> ?e \<and> bg < ?e")
    case True
    then have r: "worst_scan need (y # hs) mp bg = worst_scan need hs (ucast (fst y)) ?e"
      by simp
    from Cons.IH [of "ucast (fst y)" ?e] show ?thesis
    proof (elim disjE exE conjE)
      assume "worst_scan need hs (ucast (fst y)) ?e = ucast (fst y)"
        "\<forall>x\<in>set hs. need \<le> ucast (snd x) \<longrightarrow> (ucast (snd x) :: size_t) \<le> ?e"
      with True r have "y # hs = [] @ y # hs \<and> need \<le> ucast (snd y) \<and> bg < ucast (snd y)
        \<and> worst_scan need (y # hs) mp bg = ucast (fst y)
        \<and> (\<forall>x\<in>set []. need \<le> ucast (snd x) \<longrightarrow> (ucast (snd x) :: size_t) < ucast (snd y))
        \<and> (\<forall>x\<in>set hs. need \<le> ucast (snd x) \<longrightarrow> (ucast (snd x) :: size_t) \<le> ucast (snd y))"
        by simp
      then show ?thesis by blast
    next
      fix pre h post
      assume "hs = pre @ h # post" "need \<le> ucast (snd h)" "?e < ucast (snd h)"
        "worst_scan need hs (ucast (fst y)) ?e = ucast (fst h)"
        "\<forall>x\<in>set pre. need \<le> ucast (snd x) \<longrightarrow> (ucast (snd x) :: size_t) < ucast (snd h)"
        "\<forall>x\<in>set post. need \<le> ucast (snd x) \<longrightarrow> (ucast (snd x) :: size_t) \<le> ucast (snd h)"
      with True r have "y # hs = (y # pre) @ h # post \<and> need \<le> ucast (snd h) \<and> bg < ucast (snd h)
        \<and> worst_scan need (y # hs) mp bg = ucast (fst h)
        \<and> (\<forall>x\<in>set (y # pre). need \<le> ucast (snd x) \<longrightarrow> (ucast (snd x) :: size_t) < ucast (snd h))
        \<and> (\<forall>x\<in>set post. need \<le> ucast (snd x) \<longrightarrow> (ucast (snd x) :: size_t) \<le> ucast (snd h))"
        by auto
      then show ?thesis by blast
    qed
  next
    case False
    then have r: "worst_scan need (y # hs) mp bg = worst_scan need hs mp bg"
      by auto
    from False have y: "need \<le> ?e \<longrightarrow> ?e \<le> bg" by auto
    from Cons.IH [of mp bg] show ?thesis
    proof (elim disjE exE conjE)
      assume "worst_scan need hs mp bg = mp"
        "\<forall>x\<in>set hs. need \<le> ucast (snd x) \<longrightarrow> (ucast (snd x) :: size_t) \<le> bg"
      with r y show ?thesis by simp
    next
      fix pre h post
      assume "hs = pre @ h # post" "need \<le> ucast (snd h)" "bg < ucast (snd h)"
        "worst_scan need hs mp bg = ucast (fst h)"
        "\<forall>x\<in>set pre. need \<le> ucast (snd x) \<longrightarrow> (ucast (snd x) :: size_t) < ucast (snd h)"
        "\<forall>x\<in>set post. need \<le> ucast (snd x) \<longrightarrow> (ucast (snd x) :: size_t) \<le> ucast (snd h)"
      with r y have "y # hs = (y # pre) @ h # post \<and> need \<le> ucast (snd h) \<and> bg < ucast (snd h)
        \<and> worst_scan need (y # hs) mp bg = ucast (fst h)
        \<and> (\<forall>x\<in>set (y # pre). need \<le> ucast (snd x) \<longrightarrow> (ucast (snd x) :: size_t) < ucast (snd h))
        \<and> (\<forall>x\<in>set post. need \<le> ucast (snd x) \<longrightarrow> (ucast (snd x) :: size_t) \<le> ucast (snd h))"
        by auto
      then show ?thesis by blast
    qed
  qed
qed

text \<open>
  Claim C7. For a positive number \<open>n\<close> of words and a snapshot of the holes \<open>hs\<close>:
  when some hole fits, \<^verbatim>\<open>worstFit\<close> returns the position of a hole \<open>h\<close> that fits, whose
  extent is larger than that of every fitting hole before it in the snapshot and not
  smaller than that of every fitting hole after it (the largest extent, a later hole of
  the same size never replacing it); when no hole fits it returns \<open>-1\<close>. And \<open>-1\<close> is
  returned exactly when no hole fits.
\<close>

theorem worstFit_first_largest:
  assumes "0 < sint n" and "length hs < 65536"
  shows "(if \<exists>h\<in>set hs. fits n h
          then \<exists>pre h post. hs = pre @ h # post \<and> fits n h
                 \<and> worstFit n (Some (snapshot hs)) = Inr (ucast (fst h))
                 \<and> (\<forall>x\<in>set pre. fits n x \<longrightarrow> unat (snd x) < unat (snd h))
                 \<and> (\<forall>x\<in>set post. fits n x \<longrightarrow> unat (snd x) \<le> unat (snd h))
          else worstFit n (Some (snapshot hs)) = Inr (- 1))
       \<and> (worstFit n (Some (snapshot hs)) = Inr (- 1) \<longleftrightarrow> \<not> (\<exists>h\<in>set hs. fits n h))"
proof -
  let ?need = "scast n :: size_t"
  have w: "worstFit n (Some (snapshot hs)) = Inr (worst_scan ?need hs (- 1) 0)"
    by (rule worstFit_snapshot [OF assms(2)])
  have npos: "0 < unat ?need" using assms(1) by (simp add: unat_scast_positive)
  have lt: "(ucast a :: size_t) < ucast b \<longleftrightarrow> unat a < unat b" for a b :: uint16_t
    by (simp add: word_less_nat_alt unat_ucast_cell)
  have le: "(ucast a :: size_t) \<le> ucast b \<longleftrightarrow> unat a \<le> unat b" for a b :: uint16_t
    by (simp add: word_le_nat_alt unat_ucast_cell)
  from worst_scan_first_largest [of ?need hs "- 1" 0] show ?thesis
  proof (elim disjE exE conjE)
    assume r: "worst_scan ?need hs (- 1) 0 = - 1"
      and none: "\<forall>x\<in>set hs. ?need \<le> ucast (snd x) \<longrightarrow> (ucast (snd x) :: size_t) \<le> 0"
    have "\<not> fits n x" if "x \<in> set hs" for x
    proof
      assume f: "fits n x"
      then have "?need \<le> ucast (snd x)" by (simp add: fits_word [OF assms(1)])
      with none that have "(ucast (snd x) :: size_t) \<le> 0" by blast
      then have "unat (snd x) = 0" by (simp add: word_le_nat_alt unat_ucast_cell)
      with f npos show False by (simp add: fits_def unat_scast_positive [OF assms(1)])
    qed
    with w r show ?thesis by auto
  next
    fix pre h post
    assume hs: "hs = pre @ h # post" and h: "?need \<le> ucast (snd h)"
      and r: "worst_scan ?need hs (- 1) 0 = ucast (fst h)"
      and pre: "\<forall>x\<in>set pre. ?need \<le> ucast (snd x) \<longrightarrow> (ucast (snd x) :: size_t) < ucast (snd h)"
      and post: "\<forall>x\<in>set post. ?need \<le> ucast (snd x) \<longrightarrow> (ucast (snd x) :: size_t) \<le> ucast (snd h)"
    have fh: "fits n h" using h by (simp add: fits_word [OF assms(1)])
    have res: "worstFit n (Some (snapshot hs)) = Inr (ucast (fst h))" using w r by simp
    have p1: "\<forall>x\<in>set pre. fits n x \<longrightarrow> unat (snd x) < unat (snd h)"
      using pre by (simp add: fits_word [OF assms(1)] lt)
    have p2: "\<forall>x\<in>set post. fits n x \<longrightarrow> unat (snd x) \<le> unat (snd h)"
      using post by (simp add: fits_word [OF assms(1)] le)
    from hs fh res p1 p2 have "\<exists>pre h post. hs = pre @ h # post \<and> fits n h
                 \<and> worstFit n (Some (snapshot hs)) = Inr (ucast (fst h))
                 \<and> (\<forall>x\<in>set pre. fits n x \<longrightarrow> unat (snd x) < unat (snd h))
                 \<and> (\<forall>x\<in>set post. fits n x \<longrightarrow> unat (snd x) \<le> unat (snd h))"
      by blast
    moreover have "worstFit n (Some (snapshot hs)) \<noteq> Inr (- 1)"
      using res ucast_cell_not_minus_one by simp
    moreover have "\<exists>h\<in>set hs. fits n h" using hs fh by auto
    ultimately show ?thesis by simp
  qed
qed

text \<open>The holes of sizes 10, 4 and 7 and a request of 5 words: the hole of size 10.\<close>

theorem worstFit_first_largest_witness:
  "0 < sint (5 :: c_int) \<and> length example_holes < 65536
   \<and> worstFit 5 (Some (snapshot example_holes)) = Inr 0"
proof -
  have h1: "0 < sint (5 :: c_int)" by simp
  have h2: "length example_holes < 65536" by (simp add: example_holes_def)
  have e: "worstFit 5 (Some (snapshot example_holes)) = Inr 0"
    by code_simp
  from worstFit_first_largest [OF h1 h2] h1 h2 e show ?thesis by blast
qed

end
